theory Spec2Isabelle
  imports Main
begin

section \<open>A bounded connection pool over the MyMySQL driver\<close>

text \<open>
  The development embeds the Go package \<^verbatim>\<open>pool\<close> (files \<^verbatim>\<open>pool.go\<close>, \<^verbatim>\<open>conn.go\<close>,
  \<^verbatim>\<open>stmt.go\<close>, \<^verbatim>\<open>transaction.go\<close>). A program state holds the heap of \<^verbatim>\<open>Conn\<close> objects,
  the fields of the one \<^verbatim>\<open>Pool\<close>, and the answers of the world outside the package
  (the database driver, the network and the clock).

  Every operation is a function from a state to its result and the state it leaves.
  A result \<open>None\<close> says that the call does not return: a nil pointer is dereferenced
  (a Go panic), or a send blocks on the full idle channel while the pool's lock is held,
  or, for the lease loop, the fuel is used up.
\<close>

subsection \<open>Errors\<close>

text \<open>
  What a unit of work handed to the wrappers can return: a \<^verbatim>\<open>*mysql.Error\<close> with its
  numeric code, the end-of-stream value \<^verbatim>\<open>io.EOF\<close>, or any other error value
  (\<^verbatim>\<open>errors.New(msg)\<close>, a network error). The code is a \<^verbatim>\<open>uint16\<close> in the driver;
  it is a natural number here, which covers every such code.
\<close>

datatype drv_error = MysqlError nat | EOF | OtherError string

text \<open>
  The Go \<^verbatim>\<open>error\<close> values the package hands to its callers: an error of the work,
  one of the three package variables, or the message built by \<^verbatim>\<open>Get\<close> on a timeout
  with its three numbers (total, avail, max). The nil error is \<open>None\<close>.
\<close>

datatype error =
    Drv drv_error
  | ErrCollationWithoutCharset
  | ErrConnectionNotInPool
  | ErrRequestTimeout
  | ErrPoolExhausted nat nat nat

subsection \<open>Data\<close>

type_synonym conn_id = nat

datatype pool_ref = ThePool

record Stmt =
  raw :: nat
  conn :: conn_id
  sql :: string

text \<open>
  A \<^verbatim>\<open>Conn\<close>: \<open>connected\<close> is what \<^verbatim>\<open>IsConnected\<close> of the embedded driver connection
  answers, \<open>pool\<close> is the back-reference (\<open>None\<close> is nil), \<open>statements\<close> the statement
  cache and \<open>expiryDate\<close> a point in time in nanoseconds.
\<close>

record Conn =
  connected :: bool
  pool :: "pool_ref option"
  statements :: "string \<rightharpoonup> Stmt"
  expiryDate :: int

record Config =
  Address :: string
  Protocol :: string
  Username :: string
  Password :: string
  Database :: string
  MaxConnections :: nat
  MaxConnectionAge :: nat
  ConnectTimeout :: nat
  RequestTimeout :: nat
  KeepConnectionsAlive :: bool
  Charset :: string
  Collation :: string

text \<open>
  The world outside the package, as the code observes it: the clock, the outcome of the
  driver's \<^verbatim>\<open>Connect\<close> for the connection object with a given identity, the error that
  the session set-up query of \<^verbatim>\<open>prepareConnection\<close> hands back, and the outcome of the
  driver's \<^verbatim>\<open>Ping\<close>.
\<close>

record env =
  now :: int
  dial :: "conn_id \<Rightarrow> drv_error option"
  session_setup :: "conn_id \<Rightarrow> error option"
  ping :: "conn_id \<Rightarrow> drv_error option"

text \<open>
  The state: the heap \<open>conns\<close> with its allocation counter, then the fields of \<^verbatim>\<open>Pool\<close>.
  The channel \<^verbatim>\<open>idleConnections\<close> is its buffer, oldest element first, with the
  capacity it was made with. \<^verbatim>\<open>numPending\<close> is a \<^verbatim>\<open>uint\<close>; the code decrements it only
  in a deferred call that an increment of the same \<^verbatim>\<open>Get\<close> preceded, so it
  never wraps and is a natural number here. The three durations are nanoseconds.
\<close>

record state =
  conns :: "conn_id \<Rightarrow> Conn"
  next_conn :: conn_id
  openConnections :: "conn_id set"
  idleConnections :: "conn_id list"
  idleCap :: nat
  numPending :: nat
  config :: Config
  connectionExpiry :: int
  connectTimeout :: int
  requestTimeout :: int
  env :: env

subsection \<open>pool.go\<close>

text \<open>
  \<^verbatim>\<open>time.Duration(n) * time.Second\<close>: the product is taken in 64-bit signed
  arithmetic and wraps.
\<close>

definition to_int64 :: "int \<Rightarrow> int" where
  "to_int64 x = (x + 2 ^ 63) mod 2 ^ 64 - 2 ^ 63"

definition seconds :: "nat \<Rightarrow> int" where
  "seconds n = to_int64 (int n * 1000000000)"

definition nilConn :: Conn where
  "nilConn = \<lparr>connected = False, pool = None, statements = Map.empty, expiryDate = 0\<rparr>"

definition New :: "Config \<Rightarrow> env \<Rightarrow> state" where
  "New cfg e =
     \<lparr>conns = (\<lambda>_. nilConn), next_conn = 0,
      openConnections = {}, idleConnections = [], idleCap = MaxConnections cfg,
      numPending = 0, config = cfg,
      connectionExpiry = seconds (MaxConnectionAge cfg),
      connectTimeout = seconds (ConnectTimeout cfg),
      requestTimeout = seconds (RequestTimeout cfg),
      env = e\<rparr>"

definition Size :: "state \<Rightarrow> nat \<times> nat" where
  "Size s = (card (openConnections s), length (idleConnections s))"

text \<open>The driver's \<^verbatim>\<open>Close\<close>, which the embedded connection promotes to \<^verbatim>\<open>Conn\<close>.\<close>

definition Close :: "conn_id \<Rightarrow> state \<Rightarrow> state" where
  "Close c s = s\<lparr>conns := (conns s)(c := (conns s c)\<lparr>connected := False\<rparr>)\<rparr>"

text \<open>
  \<^verbatim>\<open>prepareConnection\<close> builds the \<^verbatim>\<open>SET NAMES\<close> query from the charset and the
  collation and, when the query is not empty, runs it with \<^verbatim>\<open>conn.Query\<close>. That query
  runs while the caller of \<^verbatim>\<open>createConn\<close> holds the pool's lock, on a connection that
  is not yet in the open set; the error it hands back is the environment's
  \<open>session_setup\<close>.
\<close>

definition run_setup :: "string \<Rightarrow> conn_id \<Rightarrow> state \<Rightarrow> error option" where
  "run_setup query c s = (if length query > 0 then session_setup (env s) c else None)"

definition prepareConnection :: "conn_id \<Rightarrow> state \<Rightarrow> error option" where
  "prepareConnection c s =
     (let query = (if length (Charset (config s)) > 0
                   then ''SET NAMES '' @ [CHR 0x27] @ Charset (config s) @ [CHR 0x27]
                   else [])
      in if length (Collation (config s)) > 0
         then (if length query > 0
               then run_setup (query @ '' COLLATE '' @ [CHR 0x27] @ Collation (config s) @ [CHR 0x27]) c s
               else Some ErrCollationWithoutCharset)
         else run_setup query c s)"

definition Connect :: "conn_id \<Rightarrow> state \<Rightarrow> error option \<times> state" where
  "Connect c s =
     (case dial (env s) c of
        Some e \<Rightarrow> (Some (Drv e), s)
      | None \<Rightarrow>
          (let s1 = s\<lparr>conns := (conns s)(c := (conns s c)\<lparr>connected := True\<rparr>)\<rparr>
           in (prepareConnection c s1, s1)))"

text \<open>
  \<^verbatim>\<open>createConn\<close> allocates the object, connects it and registers it in the open set
  only when the connect succeeded. It makes no check of the capacity.
\<close>

definition createConn :: "state \<Rightarrow> (error + conn_id) \<times> state" where
  "createConn s =
     (let c = next_conn s;
          s1 = s\<lparr>conns := (conns s)(c :=
                    \<lparr>connected = False, pool = Some ThePool, statements = Map.empty,
                     expiryDate = now (env s) + connectionExpiry s\<rparr>),
                 next_conn := Suc c\<rparr>
      in case Connect c s1 of
           (None, s2) \<Rightarrow> (Inr c, s2\<lparr>openConnections := insert c (openConnections s2)\<rparr>)
         | (Some e, s2) \<Rightarrow> (Inl e, s2))"


subsection \<open>conn.go: Destroy, verify, Release\<close>

text \<open>
  The send \<^verbatim>\<open>pool.idleConnections <- newConn\<close> of the backfill blocks when the buffer
  is full, with the lock held: the call does not return.
\<close>

definition Destroy :: "conn_id \<Rightarrow> state \<Rightarrow> state option" where
  "Destroy c s =
     (let s1 = (if connected (conns s c) then Close c s else s)
      in if pool (conns s1 c) \<noteq> None
         then
           (let s2 = s1\<lparr>openConnections := openConnections s1 - {c},
                        conns := (conns s1)(c := (conns s1 c)\<lparr>statements := Map.empty, pool := None\<rparr>)\<rparr>
            in if numPending s2 > 0
               then (case createConn s2 of
                       (Inr n, s3) \<Rightarrow>
                         (if length (idleConnections s3) < idleCap s3
                          then Some (s3\<lparr>idleConnections := idleConnections s3 @ [n]\<rparr>)
                          else None)
                     | (Inl e, s3) \<Rightarrow> Some s3)
               else Some s2)
         else Some s1)"

text \<open>
  \<^verbatim>\<open>verify\<close> reads \<^verbatim>\<open>conn.pool.connectionExpiry\<close> in its third test: with a nil
  back-reference that is a panic.
\<close>

definition verify :: "conn_id \<Rightarrow> state \<Rightarrow> (bool \<times> state) option" where
  "verify c s =
     (if \<not> connected (conns s c) then map_option (Pair False) (Destroy c s)
      else if ping (env s) c \<noteq> None then map_option (Pair False) (Destroy c s)
      else (case pool (conns s c) of
              None \<Rightarrow> None
            | Some p \<Rightarrow>
                (if connectionExpiry s > 0 \<and> now (env s) > expiryDate (conns s c)
                 then map_option (Pair False) (Destroy c s)
                 else Some (True, s))))"

definition Release :: "conn_id \<Rightarrow> state \<Rightarrow> (error option \<times> state) option" where
  "Release c s =
     (if pool (conns s c) = None then Some (Some ErrConnectionNotInPool, s)
      else if KeepConnectionsAlive (config s)
      then (case verify c s of
              None \<Rightarrow> None
            | Some (ok, s1) \<Rightarrow>
                (if ok
                 then (if length (idleConnections s1) < idleCap s1
                       then Some (None, s1\<lparr>idleConnections := idleConnections s1 @ [c]\<rparr>)
                       else map_option (Pair None) (Destroy c s1))
                 else map_option (Pair None) (Destroy c s1)))
      else map_option (Pair None) (Destroy c s))"

subsection \<open>pool.go: Get\<close>


definition leased :: "conn_id \<Rightarrow> state \<Rightarrow> bool" where
  "leased c s \<longleftrightarrow>
     c \<in> openConnections s \<and> c \<notin> set (idleConnections s) \<and> pool (conns s c) \<noteq> None"



text \<open>
  The deferred functions of \<^verbatim>\<open>Get\<close> run when it returns, one for each time the wait
  branch was entered, and each takes one from \<^verbatim>\<open>numPending\<close>.
\<close>

definition run_deferred :: "nat \<Rightarrow> state \<Rightarrow> state" where
  "run_deferred d s = s\<lparr>numPending := numPending s - d\<rparr>"




subsection \<open>conn.go: the error classification and the timeout wrapper\<close>

text \<open>The codes of the \<^verbatim>\<open>switch\<close> in \<^verbatim>\<open>destroyOnError\<close>, in the order of the source.\<close>

definition server_fatal_codes :: "nat list" where
  "server_fatal_codes =
     [1021, 1037, 1041, 1042, 1043, 1044, 1045, 1053, 1077, 1078, 1079, 1080, 1081,
      1114, 1119, 1152, 1153, 1154, 1155, 1156, 1157, 1158, 1159, 1160, 1161,
      1188, 1189, 1190, 1194, 1195, 1197, 1203, 1218, 1219, 1436, 1459,
      1534, 1535, 1547, 1548, 1610, 1705]"

text \<open>
  The decision of \<^verbatim>\<open>destroyOnError\<close> for a non-nil error: a \<^verbatim>\<open>*mysql.Error\<close> goes
  through the \<^verbatim>\<open>switch\<close>, whose default branch tests \<^verbatim>\<open>Code >= 2000\<close>; any other
  error is compared with \<^verbatim>\<open>io.EOF\<close>.
\<close>

fun fatal :: "error \<Rightarrow> bool" where
  "fatal (Drv (MysqlError code)) =
     (if code \<in> set server_fatal_codes then True else code \<ge> 2000)"
| "fatal (Drv EOF) = False"
| "fatal e = True"

text \<open>A unit of work: it may change the state and returns an error or nil.\<close>

type_synonym work = "state \<Rightarrow> (error option \<times> state) option"

definition destroyOnError :: "conn_id \<Rightarrow> work \<Rightarrow> work" where
  "destroyOnError c f s =
     (case f s of
        None \<Rightarrow> None
      | Some (err, s1) \<Rightarrow>
          (case err of
             None \<Rightarrow> Some (None, s1)
           | Some e \<Rightarrow>
               (if fatal e then map_option (Pair (Some e)) (Destroy c s1)
                else Some (Some e, s1))))"

text \<open>
  \<^verbatim>\<open>withTimeout\<close> starts the work on a goroutine of its own and waits for its signal
  or for the timer, whichever comes first; which one does is the environment's
  \<open>timing\<close>. The operand \<^verbatim>\<open>conn.pool.requestTimeout\<close> of the timer is read when the
  \<^verbatim>\<open>select\<close> is entered: a nil back-reference is a panic. With \<open>Completes\<close> the work
  has run and its error is returned. With \<open>DeadlineFirst\<close> the work has not returned
  from the driver yet and has changed nothing; the wrapper calls \<^verbatim>\<open>conn.Close()\<close>,
  which is the driver's \<^verbatim>\<open>Close\<close>, and returns \<^verbatim>\<open>ErrRequestTimeout\<close>. What the
  abandoned goroutine does later is not part of the call.
\<close>

datatype timing = Completes | DeadlineFirst

definition withTimeout :: "conn_id \<Rightarrow> timing \<Rightarrow> work \<Rightarrow> work" where
  "withTimeout c t f s =
     (case pool (conns s c) of
        None \<Rightarrow> None
      | Some p \<Rightarrow>
          (case t of
             Completes \<Rightarrow> f s
           | DeadlineFirst \<Rightarrow> Some (Some ErrRequestTimeout, Close c s)))"

subsection \<open>conn.go, stmt.go, transaction.go: the operations\<close>

text \<open>
  A \<^verbatim>\<open>mysql.Result\<close> as the callers see it: nil, a result of the driver, or the
  decorator \<^verbatim>\<open>&Result{result, conn}\<close>. A \<^verbatim>\<open>mysql.Transaction\<close> likewise.
\<close>

datatype result = NilResult | RawResult nat | PoolResult result conn_id



text \<open>
  What the driver hands back from a query: the rows (\<open>None\<close> is the nil slice), the
  result and the error.
\<close>

type_synonym 'r reply = "'r option \<times> result \<times> drv_error option"

text \<open>
  The closures of \<^verbatim>\<open>Query\<close> and its siblings assign the driver's values to the named
  results of the enclosing function. When the wrapper returns on \<open>Completes\<close> they hold
  the driver's values; on \<open>DeadlineFirst\<close> the driver has not returned and they hold
  their zero values.
\<close>

definition captured :: "timing \<Rightarrow> 'a \<Rightarrow> 'a \<Rightarrow> 'a" where
  "captured t zero v = (case t of Completes \<Rightarrow> v | DeadlineFirst \<Rightarrow> zero)"













text \<open>
  \<^verbatim>\<open>Prepare\<close>: a hit in the cache returns at once. Otherwise the closure asks the
  driver, whose answer is a statement handle and an error, and stores the new
  \<^verbatim>\<open>Stmt\<close> in the cache when the error is nil.
\<close>

definition cache_put :: "conn_id \<Rightarrow> string \<Rightarrow> Stmt \<Rightarrow> state \<Rightarrow> state" where
  "cache_put c q st s =
     s\<lparr>conns := (conns s)(c := (conns s c)\<lparr>statements := (statements (conns s c))(q \<mapsto> st)\<rparr>)\<rparr>"

definition cache_delete :: "conn_id \<Rightarrow> string \<Rightarrow> state \<Rightarrow> state" where
  "cache_delete c q s =
     s\<lparr>conns := (conns s)(c := (conns s c)\<lparr>statements := (statements (conns s c))(q := None)\<rparr>)\<rparr>"

definition Prepare :: "conn_id \<Rightarrow> string \<Rightarrow> timing \<Rightarrow> nat \<times> drv_error option \<Rightarrow> state \<Rightarrow>
    ((Stmt option \<times> error option) \<times> state) option" where
  "Prepare c q t reply s =
     (case statements (conns s c) q of
        Some st \<Rightarrow> Some ((Some st, None), s)
      | None \<Rightarrow>
          (let new = \<lparr>raw = fst reply, conn = c, sql = q\<rparr>
           in case withTimeout c t
                     (destroyOnError c
                        (\<lambda>s'. Some (case snd reply of
                                       None \<Rightarrow> (None, cache_put c q new s')
                                     | Some e \<Rightarrow> (Some (Drv e), s')))) s of
                None \<Rightarrow> None
              | Some (err, s1) \<Rightarrow>
                  Some ((captured t None (case snd reply of None \<Rightarrow> Some new | Some e \<Rightarrow> None),
                         err), s1)))"

text \<open>\<^verbatim>\<open>Stmt.Delete\<close>: under \<^verbatim>\<open>destroyOnError\<close> only, with no timeout wrapper.\<close>

definition Delete :: "Stmt \<Rightarrow> drv_error option \<Rightarrow> work" where
  "Delete st reply s =
     destroyOnError (conn st)
       (\<lambda>s'. Some (case reply of
                      None \<Rightarrow> (None, cache_delete (conn st) (sql st) s')
                    | Some e \<Rightarrow> (Some (Drv e), s'))) s"

section \<open>Notions used in the statements\<close>

text \<open>
  The connect of the connection object with identity \<open>n\<close> succeeds: the driver
  connects and the session set-up raises no error.
\<close>

definition connect_ok :: "conn_id \<Rightarrow> state \<Rightarrow> bool" where
  "connect_ok n s \<longleftrightarrow> dial (env s) n = None \<and> prepareConnection n s = None"

text \<open>
  Two states of the same pool: the configuration, the durations, the capacity of the
  idle channel and the environment agree.
\<close>

definition same_pool :: "state \<Rightarrow> state \<Rightarrow> bool" where
  "same_pool s' s \<longleftrightarrow>
     idleCap s' = idleCap s \<and> config s' = config s \<and> env s' = env s
     \<and> connectionExpiry s' = connectionExpiry s \<and> connectTimeout s' = connectTimeout s
     \<and> requestTimeout s' = requestTimeout s"

text \<open>
  The state that the locked section of \<^verbatim>\<open>Destroy\<close> leaves before the backfill: the
  connection is closed, out of the open set, its cache empty and its back-reference nil.
\<close>

definition detached :: "conn_id \<Rightarrow> state \<Rightarrow> state" where
  "detached c s =
     s\<lparr>openConnections := openConnections s - {c},
       conns := (conns s)(c := (conns s c)\<lparr>connected := False, statements := Map.empty, pool := None\<rparr>)\<rparr>"

text \<open>
  The invariant of the pool. Besides the three properties of the specification (the
  open set within the maximum, the idle channel within the open set, which with
  \<open>distinct\<close> bounds its length by the size of the open set) it records what they
  rest on: the capacity of the channel is the maximum, and every open connection is an
  allocated object whose back-reference is set.
\<close>

definition pool_inv :: "state \<Rightarrow> bool" where
  "pool_inv s \<longleftrightarrow>
     finite (openConnections s)
     \<and> card (openConnections s) \<le> MaxConnections (config s)
     \<and> idleCap s = MaxConnections (config s)
     \<and> distinct (idleConnections s)
     \<and> set (idleConnections s) \<subseteq> openConnections s
     \<and> (\<forall>c\<in>openConnections s. c < next_conn s \<and> pool (conns s c) \<noteq> None)"

text \<open>
  A destroyed connection: nil back-reference, closed, in neither the open set nor the
  idle channel.
\<close>

definition gone :: "conn_id \<Rightarrow> state \<Rightarrow> bool" where
  "gone c s \<longleftrightarrow>
     pool (conns s c) = None \<and> \<not> connected (conns s c)
     \<and> c \<notin> openConnections s \<and> c \<notin> set (idleConnections s)"



subsection \<open>Concrete pools\<close>

text \<open>
  The configuration of \<^verbatim>\<open>pool_test.go\<close>, an environment in which the database
  answers every connect and every ping at time 0, and the pool \<^verbatim>\<open>New\<close> makes of them.
  \<open>one_leased\<close> is that pool after its first \<^verbatim>\<open>Get\<close> (lemma \<open>Get_test_pool\<close>), and
  \<open>one_waiting\<close> the same with one caller counted as pending.
\<close>

definition test_config :: Config where
  "test_config =
     \<lparr>Address = ''/var/run/mysqld/mysqld.sock'', Protocol = ''unix'',
      Username = ''testuser'', Password = ''testpass'', Database = ''test'',
      MaxConnections = 5, MaxConnectionAge = 300, ConnectTimeout = 2, RequestTimeout = 5,
      KeepConnectionsAlive = True, Charset = [], Collation = []\<rparr>"

definition healthy_env :: env where
  "healthy_env = \<lparr>now = 0, dial = (\<lambda>c. None), session_setup = (\<lambda>c. None), ping = (\<lambda>c. None)\<rparr>"

definition test_pool :: state where
  "test_pool = New test_config healthy_env"

definition first_conn :: Conn where
  "first_conn = \<lparr>connected = True, pool = Some ThePool, statements = Map.empty,
                  expiryDate = 300000000000\<rparr>"

definition one_leased :: state where
  "one_leased = test_pool\<lparr>conns := (conns test_pool)(0 := first_conn), next_conn := 1,
                           openConnections := {0}\<rparr>"

definition one_waiting :: state where
  "one_waiting = one_leased\<lparr>numPending := 1\<rparr>"

text \<open>
  Environments in which every connect is refused, or every ping fails, and a
  configuration that does not keep connections alive.
\<close>

definition refusing_env :: env where
  "refusing_env = healthy_env\<lparr>dial := (\<lambda>c. Some (OtherError ''connection refused''))\<rparr>"


definition deaf_env :: env where
  "deaf_env = healthy_env\<lparr>ping := (\<lambda>c. Some (OtherError ''broken pipe''))\<rparr>"

definition no_keep_config :: Config where
  "no_keep_config = test_config\<lparr>KeepConnectionsAlive := False\<rparr>"










text \<open>
  A prepared statement on the first connection of the test pool, the pool with that
  statement in the cache (lemma \<open>Prepare_one_leased\<close>), and a transaction on the same
  connection.
\<close>

definition sel :: Stmt where
  "sel = \<lparr>raw = 7, conn = 0, sql = ''SELECT 1''\<rparr>"

definition one_prepared :: state where
  "one_prepared = cache_put 0 ''SELECT 1'' sel one_leased"


section \<open>Lemmas\<close>

lemma prepareConnection_cong:
  "config s' = config s \<Longrightarrow> env s' = env s \<Longrightarrow> prepareConnection n s' = prepareConnection n s"
  by (simp add: prepareConnection_def run_setup_def)

lemma connect_ok_cong:
  "config s' = config s \<Longrightarrow> env s' = env s \<Longrightarrow> connect_ok n s' = connect_ok n s"
  using prepareConnection_cong[of s' s n] by (simp add: connect_ok_def)

lemma Connect_ok:
  assumes "connect_ok c s"
  shows "Connect c s = (None, s\<lparr>conns := (conns s)(c := (conns s c)\<lparr>connected := True\<rparr>)\<rparr>)"
proof -
  have "prepareConnection c (s\<lparr>conns := (conns s)(c := (conns s c)\<lparr>connected := True\<rparr>)\<rparr>)
        = prepareConnection c s"
    by (rule prepareConnection_cong) simp_all
  with assms show ?thesis
    by (simp add: Connect_def connect_ok_def Let_def)
qed

lemma Connect_fields:
  assumes "Connect c s = (r, s')"
  shows "openConnections s' = openConnections s \<and> idleConnections s' = idleConnections s
     \<and> numPending s' = numPending s \<and> next_conn s' = next_conn s \<and> same_pool s' s
     \<and> (\<forall>x. x \<noteq> c \<longrightarrow> conns s' x = conns s x)
     \<and> pool (conns s' c) = pool (conns s c)"
proof (cases "dial (env s) c")
  case None
  with assms have "s' = s\<lparr>conns := (conns s)(c := (conns s c)\<lparr>connected := True\<rparr>)\<rparr>"
    by (simp add: Connect_def Let_def)
  then show ?thesis by (simp add: same_pool_def)
next
  case (Some e)
  with assms have "s' = s" by (simp add: Connect_def)
  then show ?thesis by (simp add: same_pool_def)
qed

lemma Connect_fail:
  assumes "\<not> connect_ok c s"
  shows "\<exists>e s'. Connect c s = (Some e, s')"
proof (cases "dial (env s) c")
  case None
  have "prepareConnection c (s\<lparr>conns := (conns s)(c := (conns s c)\<lparr>connected := True\<rparr>)\<rparr>)
        = prepareConnection c s"
    by (rule prepareConnection_cong) simp_all
  with assms None show ?thesis
    by (simp add: Connect_def connect_ok_def Let_def)
next
  case (Some e)
  then show ?thesis by (simp add: Connect_def)
qed

lemma createConn_ok:
  assumes "connect_ok (next_conn s) s"
  shows "createConn s =
    (Inr (next_conn s),
     s\<lparr>conns := (conns s)(next_conn s :=
           \<lparr>connected = True, pool = Some ThePool, statements = Map.empty,
            expiryDate = now (env s) + connectionExpiry s\<rparr>),
       next_conn := Suc (next_conn s),
       openConnections := insert (next_conn s) (openConnections s)\<rparr>)"
proof -
  let ?s1 = "s\<lparr>conns := (conns s)(next_conn s :=
                    \<lparr>connected = False, pool = Some ThePool, statements = Map.empty,
                     expiryDate = now (env s) + connectionExpiry s\<rparr>),
                 next_conn := Suc (next_conn s)\<rparr>"
  have "connect_ok (next_conn s) ?s1"
    using assms connect_ok_cong[of ?s1 s "next_conn s"] by simp
  from Connect_ok[OF this] show ?thesis
    by (simp add: createConn_def Let_def)
qed

lemma createConn_fail:
  assumes "\<not> connect_ok (next_conn s) s"
  shows "\<exists>e s'. createConn s = (Inl e, s') \<and> openConnections s' = openConnections s
     \<and> idleConnections s' = idleConnections s \<and> numPending s' = numPending s
     \<and> next_conn s' = Suc (next_conn s) \<and> same_pool s' s
     \<and> (\<forall>x. x \<noteq> next_conn s \<longrightarrow> conns s' x = conns s x)"
proof -
  let ?s1 = "s\<lparr>conns := (conns s)(next_conn s :=
                    \<lparr>connected = False, pool = Some ThePool, statements = Map.empty,
                     expiryDate = now (env s) + connectionExpiry s\<rparr>),
                 next_conn := Suc (next_conn s)\<rparr>"
  have "\<not> connect_ok (next_conn s) ?s1"
    using assms connect_ok_cong[of ?s1 s "next_conn s"] by simp
  from Connect_fail[OF this] obtain e s' where c: "Connect (next_conn s) ?s1 = (Some e, s')"
    by blast
  have cc: "createConn s = (Inl e, s')"
    unfolding createConn_def Let_def c by simp
  from Connect_fields[OF c] have "openConnections s' = openConnections s
     \<and> idleConnections s' = idleConnections s \<and> numPending s' = numPending s
     \<and> next_conn s' = Suc (next_conn s) \<and> same_pool s' s
     \<and> (\<forall>x. x \<noteq> next_conn s \<longrightarrow> conns s' x = conns s x)"
    by (simp add: same_pool_def)
  with cc show ?thesis by blast
qed

lemma connected_False_upd: "\<not> connected r \<Longrightarrow> r\<lparr>connected := False\<rparr> = r"
  by (cases r) simp

lemma Destroy_unpooled:
  assumes "pool (conns s c) = None"
  shows "Destroy c s = Some (if connected (conns s c) then Close c s else s)"
  using assms by (simp add: Destroy_def Close_def Let_def)

lemma Destroy_pooled:
  assumes "pool (conns s c) \<noteq> None"
  shows "Destroy c s =
     (if numPending s > 0
      then (case createConn (detached c s) of
              (Inr n, s3) \<Rightarrow>
                (if length (idleConnections s3) < idleCap s3
                 then Some (s3\<lparr>idleConnections := idleConnections s3 @ [n]\<rparr>)
                 else None)
            | (Inl e, s3) \<Rightarrow> Some s3)
      else Some (detached c s))"
proof -
  have "(let s1 = (if connected (conns s c) then Close c s else s)
         in s1\<lparr>openConnections := openConnections s1 - {c},
               conns := (conns s1)(c := (conns s1 c)\<lparr>statements := Map.empty, pool := None\<rparr>)\<rparr>)
        = detached c s"
    by (cases "connected (conns s c)")
       (simp_all add: Close_def detached_def Let_def connected_False_upd)
  moreover have "pool (conns (if connected (conns s c) then Close c s else s) c) \<noteq> None"
    using assms by (simp add: Close_def)
  moreover have "numPending (detached c s) = numPending s"
    by (simp add: detached_def)
  ultimately show ?thesis
    by (simp add: Destroy_def Let_def)
qed

lemma detached_simps:
  "openConnections (detached c s) = openConnections s - {c}"
  "idleConnections (detached c s) = idleConnections s"
  "numPending (detached c s) = numPending s"
  "next_conn (detached c s) = next_conn s"
  "idleCap (detached c s) = idleCap s"
  "config (detached c s) = config s"
  "env (detached c s) = env s"
  "connectionExpiry (detached c s) = connectionExpiry s"
  "connectTimeout (detached c s) = connectTimeout s"
  "requestTimeout (detached c s) = requestTimeout s"
  "same_pool (detached c s) s"
  "x \<noteq> c \<Longrightarrow> conns (detached c s) x = conns s x"
  "connected (conns (detached c s) c) = False"
  "pool (conns (detached c s) c) = None"
  "statements (conns (detached c s) c) = Map.empty"
  "expiryDate (conns (detached c s) c) = expiryDate (conns s c)"
  by (simp_all add: detached_def same_pool_def)

lemma Destroy_no_pending:
  assumes "pool (conns s c) \<noteq> None" "numPending s = 0"
  shows "Destroy c s = Some (detached c s)"
  using assms by (simp add: Destroy_pooled)

lemma Destroy_backfill_ok:
  assumes "pool (conns s c) \<noteq> None" "0 < numPending s" "connect_ok (next_conn s) s"
    and "length (idleConnections s) < idleCap s"
  shows "Destroy c s = Some
     ((detached c s)\<lparr>conns := (conns (detached c s))(next_conn s :=
           \<lparr>connected = True, pool = Some ThePool, statements = Map.empty,
            expiryDate = now (env s) + connectionExpiry s\<rparr>),
       next_conn := Suc (next_conn s),
       openConnections := insert (next_conn s) (openConnections s - {c}),
       idleConnections := idleConnections s @ [next_conn s]\<rparr>)"
proof -
  have "connect_ok (next_conn (detached c s)) (detached c s)"
    using assms(3) connect_ok_cong[of "detached c s" s "next_conn s"]
    by (simp add: detached_simps)
  from createConn_ok[OF this] assms(1,2,4) show ?thesis
    by (simp add: Destroy_pooled detached_simps)
qed

lemma Destroy_backfill_full:
  assumes "pool (conns s c) \<noteq> None" "0 < numPending s" "connect_ok (next_conn s) s"
    and "\<not> length (idleConnections s) < idleCap s"
  shows "Destroy c s = None"
proof -
  have "connect_ok (next_conn (detached c s)) (detached c s)"
    using assms(3) connect_ok_cong[of "detached c s" s "next_conn s"]
    by (simp add: detached_simps)
  from createConn_ok[OF this] assms(1,2,4) show ?thesis
    by (simp add: Destroy_pooled detached_simps)
qed

lemma Destroy_backfill_fail:
  assumes "pool (conns s c) \<noteq> None" "0 < numPending s" "\<not> connect_ok (next_conn s) s"
  shows "\<exists>e s'. createConn (detached c s) = (Inl e, s') \<and> Destroy c s = Some s'
     \<and> openConnections s' = openConnections s - {c}
     \<and> idleConnections s' = idleConnections s \<and> numPending s' = numPending s
     \<and> next_conn s' = Suc (next_conn s) \<and> same_pool s' s
     \<and> (\<forall>x. x \<noteq> next_conn s \<longrightarrow> conns s' x = conns (detached c s) x)"
proof -
  have "\<not> connect_ok (next_conn (detached c s)) (detached c s)"
    using assms(3) connect_ok_cong[of "detached c s" s "next_conn s"]
    by (simp add: detached_simps)
  from createConn_fail[OF this] obtain e s' where
    cc: "createConn (detached c s) = (Inl e, s')"
    and f: "openConnections s' = openConnections (detached c s)"
      "idleConnections s' = idleConnections (detached c s)"
      "numPending s' = numPending (detached c s)"
      "next_conn s' = Suc (next_conn (detached c s))"
      "same_pool s' (detached c s)"
      "\<forall>x. x \<noteq> next_conn (detached c s) \<longrightarrow> conns s' x = conns (detached c s) x"
    by blast
  have "Destroy c s = Some s'"
    using assms(1,2) cc by (simp add: Destroy_pooled)
  moreover have "same_pool s' s"
    using f(5) detached_simps(11)[of c s] by (simp add: same_pool_def)
  ultimately show ?thesis using cc f by (simp add: detached_simps)
qed


lemma leased_room:
  assumes "pool_inv s" "c \<in> openConnections s" "c \<notin> set (idleConnections s)"
  shows "length (idleConnections s) < card (openConnections s)"
    and "length (idleConnections s) < idleCap s"
proof -
  have fin: "finite (openConnections s)" using assms(1) by (simp add: pool_inv_def)
  have "length (idleConnections s) = card (set (idleConnections s))"
    using assms(1) by (simp add: pool_inv_def distinct_card)
  also have "\<dots> \<le> card (openConnections s - {c})"
    using assms fin by (intro card_mono) (auto simp add: pool_inv_def)
  also have "\<dots> < card (openConnections s)"
    using assms(2) fin by (intro card_Diff1_less)
  finally show "length (idleConnections s) < card (openConnections s)" .
  then show "length (idleConnections s) < idleCap s"
    using assms(1) by (simp add: pool_inv_def)
qed

lemma pool_inv_detached:
  assumes "pool_inv s" "c \<notin> set (idleConnections s)"
  shows "pool_inv (detached c s)"
  using assms unfolding pool_inv_def
  by (auto simp add: detached_simps intro: order_trans[OF card_Diff1_le])


lemma pool_inv_createConn:
  assumes "pool_inv s" "card (openConnections s) < MaxConnections (config s)"
    and "createConn s = (r, s')"
  shows "pool_inv s' \<and> same_pool s' s \<and> idleConnections s' = idleConnections s
         \<and> numPending s' = numPending s"
proof (cases "connect_ok (next_conn s) s")
  case True
  have nin: "next_conn s \<notin> openConnections s"
    using assms(1) by (auto simp add: pool_inv_def)
  from createConn_ok[OF True] assms(3) have s': "s' =
     s\<lparr>conns := (conns s)(next_conn s :=
           \<lparr>connected = True, pool = Some ThePool, statements = Map.empty,
            expiryDate = now (env s) + connectionExpiry s\<rparr>),
       next_conn := Suc (next_conn s),
       openConnections := insert (next_conn s) (openConnections s)\<rparr>"
    by simp
  show ?thesis
    using assms(1,2) nin unfolding s' pool_inv_def same_pool_def
    by (auto simp add: less_Suc_eq)
next
  case False
  from createConn_fail[OF False] assms(3) have
    f: "openConnections s' = openConnections s" "idleConnections s' = idleConnections s"
       "numPending s' = numPending s" "next_conn s' = Suc (next_conn s)" "same_pool s' s"
       "\<forall>x. x \<noteq> next_conn s \<longrightarrow> conns s' x = conns s x"
    by auto
  have "pool_inv s'"
    using assms(1) f unfolding pool_inv_def same_pool_def
    by (auto simp add: less_Suc_eq)
  with f show ?thesis by simp
qed

lemma Destroy_inv:
  assumes inv: "pool_inv s" and nidle: "c \<notin> set (idleConnections s)"
    and mem: "pool (conns s c) \<noteq> None \<longrightarrow> c \<in> openConnections s"
  shows "\<exists>s'. Destroy c s = Some s' \<and> pool_inv s' \<and> same_pool s' s \<and> gone c s'
           \<and> numPending s' = numPending s"
proof (cases "pool (conns s c)")
  case None
  then have nopen: "c \<notin> openConnections s"
    using inv by (auto simp add: pool_inv_def)
  show ?thesis
  proof (cases "connected (conns s c)")
    case True
    then have "Destroy c s = Some (Close c s)" using None by (simp add: Destroy_unpooled)
    moreover have "pool_inv (Close c s)"
      using inv unfolding pool_inv_def Close_def by auto
    ultimately show ?thesis
      using None nopen nidle by (simp add: Close_def same_pool_def gone_def)
  next
    case False
    then have "Destroy c s = Some s" using None by (simp add: Destroy_unpooled)
    then show ?thesis
      using inv None nopen nidle False by (simp add: same_pool_def gone_def)
  qed
next
  case (Some p)
  then have pooled: "pool (conns s c) \<noteq> None" by simp
  have dinv: "pool_inv (detached c s)" by (rule pool_inv_detached[OF inv nidle])
  show ?thesis
  proof (cases "numPending s = 0")
    case True
    then have "Destroy c s = Some (detached c s)" using pooled by (rule Destroy_no_pending[rotated])
    then show ?thesis
      using dinv nidle by (simp add: detached_simps gone_def)
  next
    case False
    then have pend: "0 < numPending s" by simp
    obtain r s3 where cc: "createConn (detached c s) = (r, s3)" by (cases "createConn (detached c s)")
    have fin: "finite (openConnections s)" using inv by (simp add: pool_inv_def)
    show ?thesis
    proof (cases "c \<in> openConnections s")
      case True
      have lt: "card (openConnections (detached c s)) < MaxConnections (config (detached c s))"
        using inv True fin card_Diff1_less[of "openConnections s" c]
        by (simp add: detached_simps pool_inv_def)
      from pool_inv_createConn[OF dinv lt cc]
      have s3: "pool_inv s3" "same_pool s3 (detached c s)"
        "idleConnections s3 = idleConnections s" "numPending s3 = numPending s"
        by (simp_all add: detached_simps)
      have cnext: "c < next_conn s" using inv True by (simp add: pool_inv_def)
      have room: "length (idleConnections s) < idleCap s"
        by (rule leased_room(2)[OF inv True nidle])
      show ?thesis
      proof (cases "connect_ok (next_conn s) s")
        case ok: True
        let ?s' = "(detached c s)\<lparr>conns := (conns (detached c s))(next_conn s :=
           \<lparr>connected = True, pool = Some ThePool, statements = Map.empty,
            expiryDate = now (env s) + connectionExpiry s\<rparr>),
           next_conn := Suc (next_conn s),
           openConnections := insert (next_conn s) (openConnections s - {c}),
           idleConnections := idleConnections s @ [next_conn s]\<rparr>"
        have d: "Destroy c s = Some ?s'"
          by (rule Destroy_backfill_ok[OF pooled pend ok room])
        have nn: "next_conn s \<notin> openConnections s" "next_conn s \<notin> set (idleConnections s)"
          using inv by (auto simp add: pool_inv_def)
        have "card (insert (next_conn s) (openConnections s - {c})) = card (openConnections s)"
          using fin True nn(1) card_gt_0_iff[of "openConnections s"]
          by (auto simp add: card.insert_remove)
        then have "pool_inv ?s'"
          using inv nn nidle unfolding pool_inv_def
          by (auto simp add: detached_simps less_Suc_eq)
        moreover have "same_pool ?s' s" by (simp add: same_pool_def detached_simps)
        moreover have "gone c ?s'"
          using cnext nidle by (simp add: gone_def detached_simps)
        moreover have "numPending ?s' = numPending s" by (simp add: detached_simps)
        ultimately show ?thesis using d by blast
      next
        case bad: False
        from Destroy_backfill_fail[OF pooled pend bad] obtain e s' where
          f: "createConn (detached c s) = (Inl e, s')" "Destroy c s = Some s'"
            "openConnections s' = openConnections s - {c}"
            "idleConnections s' = idleConnections s" "numPending s' = numPending s"
            "same_pool s' s"
            "\<forall>x. x \<noteq> next_conn s \<longrightarrow> conns s' x = conns (detached c s) x"
          by blast
        have "pool_inv s'" using s3(1) cc f(1) by simp
        moreover have "gone c s'"
          using f cnext nidle by (simp add: gone_def detached_simps)
        ultimately show ?thesis using f by blast
      qed
    next
      case nopen: False
      then have False using mem pooled by simp
      then show ?thesis ..
    qed
  qed
qed

lemma same_pool_refl: "same_pool s s"
  by (simp add: same_pool_def)

lemma same_pool_trans: "same_pool s2 s1 \<Longrightarrow> same_pool s1 s \<Longrightarrow> same_pool s2 s"
  by (simp add: same_pool_def)

lemma verify_inv:
  assumes inv: "pool_inv s" and nidle: "c \<notin> set (idleConnections s)"
    and mem: "c \<in> openConnections s"
  shows "\<exists>ok s'. verify c s = Some (ok, s') \<and> pool_inv s' \<and> same_pool s' s
           \<and> numPending s' = numPending s \<and> (ok \<longrightarrow> s' = s) \<and> (\<not> ok \<longrightarrow> gone c s')"
proof -
  from Destroy_inv[OF inv nidle] mem obtain s' where
    d: "Destroy c s = Some s'" "pool_inv s'" "same_pool s' s" "gone c s'"
       "numPending s' = numPending s"
    by blast
  have pooled: "pool (conns s c) \<noteq> None" using inv mem by (simp add: pool_inv_def)
  show ?thesis
  proof (cases "\<not> connected (conns s c) \<or> ping (env s) c \<noteq> None
        \<or> (connectionExpiry s > 0 \<and> now (env s) > expiryDate (conns s c))")
    case True
    then have "verify c s = Some (False, s')"
      using d(1) pooled by (auto simp add: verify_def)
    then show ?thesis using d by (intro exI[of _ False] exI[of _ s']) simp
  next
    case False
    then have "verify c s = Some (True, s)"
      using pooled by (auto simp add: verify_def)
    then show ?thesis using inv
      by (intro exI[of _ True] exI[of _ s]) (simp add: same_pool_refl)
  qed
qed

lemma Release_inv:
  assumes inv: "pool_inv s" and l: "leased c s"
  shows "\<exists>s'. Release c s = Some (None, s') \<and> pool_inv s' \<and> same_pool s' s
           \<and> numPending s' = numPending s"
proof -
  from l have mem: "c \<in> openConnections s" and nidle: "c \<notin> set (idleConnections s)"
    and pooled: "pool (conns s c) \<noteq> None"
    by (simp_all add: leased_def)
  from Destroy_inv[OF inv nidle] mem obtain sd where
    d: "Destroy c s = Some sd" "pool_inv sd" "same_pool sd s" "numPending sd = numPending s"
    by blast
  show ?thesis
  proof (cases "KeepConnectionsAlive (config s)")
    case False
    then have "Release c s = Some (None, sd)"
      using pooled d(1) by (simp add: Release_def)
    then show ?thesis using d by simp
  next
    case True
    from verify_inv[OF inv nidle mem] obtain ok s1 where
      v: "verify c s = Some (ok, s1)" "pool_inv s1" "same_pool s1 s"
         "numPending s1 = numPending s" "ok \<longrightarrow> s1 = s" "\<not> ok \<longrightarrow> gone c s1"
      by blast
    show ?thesis
    proof (cases ok)
      case True
      then have s1: "s1 = s" using v(5) by simp
      have room: "length (idleConnections s) < idleCap s"
        by (rule leased_room(2)[OF inv mem nidle])
      have r: "Release c s = Some (None, s\<lparr>idleConnections := idleConnections s @ [c]\<rparr>)"
        using pooled \<open>KeepConnectionsAlive (config s)\<close> v(1) True s1 room
        by (simp add: Release_def)
      have "pool_inv (s\<lparr>idleConnections := idleConnections s @ [c]\<rparr>)"
        using inv mem nidle unfolding pool_inv_def by auto
      then show ?thesis using r by (simp add: same_pool_def)
    next
      case False
      then have g: "gone c s1" using v(6) by simp
      then have "c \<notin> set (idleConnections s1)" "pool (conns s1 c) \<noteq> None \<longrightarrow> c \<in> openConnections s1"
        by (simp_all add: gone_def)
      from Destroy_inv[OF v(2) this] obtain s2 where
        d2: "Destroy c s1 = Some s2" "pool_inv s2" "same_pool s2 s1" "numPending s2 = numPending s1"
        by blast
      have "Release c s = Some (None, s2)"
        using pooled \<open>KeepConnectionsAlive (config s)\<close> v(1) False d2(1)
        by (simp add: Release_def)
      then show ?thesis
        using d2 v same_pool_trans[OF d2(3) v(3)] by simp
    qed
  qed
qed



lemma pool_inv_numPending [simp]: "pool_inv (s\<lparr>numPending := n\<rparr>) = pool_inv s"
  by (simp add: pool_inv_def)

lemma same_pool_numPending [simp]:
  "same_pool (s\<lparr>numPending := n\<rparr>) s' = same_pool s s'"
  "same_pool s' (s\<lparr>numPending := n\<rparr>) = same_pool s' s"
  by (simp_all add: same_pool_def)

lemma same_pool_idle [simp]:
  "same_pool (s\<lparr>idleConnections := n\<rparr>) s' = same_pool s s'"
  "same_pool s' (s\<lparr>idleConnections := n\<rparr>) = same_pool s' s"
  by (simp_all add: same_pool_def)

lemma pool_inv_run_deferred [simp]: "pool_inv (run_deferred d s) = pool_inv s"
  by (simp add: run_deferred_def)

lemma same_pool_run_deferred [simp]: "same_pool (run_deferred d s) s' = same_pool s s'"
  by (simp add: run_deferred_def)



lemma seconds_small: "n < 9223372036 \<Longrightarrow> seconds n = int n * 1000000000"
  by (simp add: seconds_def to_int64_def)

lemma test_pool_fields:
  "next_conn test_pool = 0" "openConnections test_pool = {}" "idleConnections test_pool = []"
  "idleCap test_pool = 5" "numPending test_pool = 0" "config test_pool = test_config"
  "env test_pool = healthy_env" "connectionExpiry test_pool = 300000000000"
  by (simp_all add: test_pool_def New_def test_config_def seconds_small)

lemma connect_ok_test: "config s = test_config \<Longrightarrow> env s = healthy_env \<Longrightarrow> connect_ok n s"
  by (simp add: connect_ok_def prepareConnection_def run_setup_def test_config_def healthy_env_def)


lemma one_leased_fields:
  "next_conn one_leased = 1" "openConnections one_leased = {0}" "idleConnections one_leased = []"
  "idleCap one_leased = 5" "numPending one_leased = 0" "config one_leased = test_config"
  "env one_leased = healthy_env" "connectionExpiry one_leased = 300000000000"
  "conns one_leased 0 = first_conn"
  by (simp_all add: one_leased_def test_pool_fields)

lemma Destroy_one_leased: "Destroy 0 one_leased = Some (detached 0 one_leased)"
  by (rule Destroy_no_pending) (simp_all add: one_leased_fields first_conn_def)

lemma one_waiting_fields:
  "next_conn one_waiting = 1" "openConnections one_waiting = {0}" "idleConnections one_waiting = []"
  "idleCap one_waiting = 5" "numPending one_waiting = 1" "config one_waiting = test_config"
  "env one_waiting = healthy_env" "connectionExpiry one_waiting = 300000000000"
  "conns one_waiting 0 = first_conn"
  by (simp_all add: one_waiting_def one_leased_fields)

lemma Destroy_leaves:
  assumes alloc: "c < next_conn s" and d: "Destroy c s = Some s1"
  shows "pool (conns s1 c) = None" and "\<not> connected (conns s1 c)"
    and "next_conn s1 \<le> Suc (next_conn s)" and "numPending s1 = numPending s"
    and "pool (conns s c) \<noteq> None \<Longrightarrow> statements (conns s1 c) = Map.empty"
    and "pool (conns s c) \<noteq> None \<Longrightarrow> c \<notin> openConnections s1"
proof -
  have "pool (conns s1 c) = None \<and> \<not> connected (conns s1 c)
      \<and> next_conn s1 \<le> Suc (next_conn s) \<and> numPending s1 = numPending s
      \<and> (pool (conns s c) \<noteq> None \<longrightarrow>
            statements (conns s1 c) = Map.empty \<and> c \<notin> openConnections s1)"
  proof (cases "pool (conns s c) = None")
    case True
    with d show ?thesis by (auto simp add: Destroy_unpooled Close_def split: if_splits)
  next
    case pooled: False
    show ?thesis
    proof (cases "0 < numPending s")
      case False
      with pooled d have "s1 = detached c s" by (simp add: Destroy_no_pending)
      then show ?thesis by (simp add: detached_simps)
    next
      case True
      show ?thesis
      proof (cases "connect_ok (next_conn s) s")
        case ok: True
        show ?thesis
        proof (cases "length (idleConnections s) < idleCap s")
          case room: True
          from Destroy_backfill_ok[OF pooled True ok room] d alloc show ?thesis
            by (auto simp add: detached_simps)
        next
          case full: False
          from Destroy_backfill_full[OF pooled True ok full] d show ?thesis by simp
        qed
      next
        case bad: False
        from Destroy_backfill_fail[OF pooled True bad] d alloc show ?thesis
          by (auto simp add: detached_simps)
      qed
    qed
  qed
  then show "pool (conns s1 c) = None" and "\<not> connected (conns s1 c)"
    and "next_conn s1 \<le> Suc (next_conn s)" and "numPending s1 = numPending s"
    and "pool (conns s c) \<noteq> None \<Longrightarrow> statements (conns s1 c) = Map.empty"
    and "pool (conns s c) \<noteq> None \<Longrightarrow> c \<notin> openConnections s1"
    by simp_all
qed

lemma verify_True_same:
  assumes "verify c s = Some (True, s1)"
  shows "s1 = s"
  using assms by (auto simp add: verify_def split: if_splits option.splits)

lemma verify_False_Destroy:
  assumes "verify c s = Some (False, s1)"
  shows "Destroy c s = Some s1"
  using assms by (auto simp add: verify_def split: if_splits option.splits)







lemma verify_one_leased: "verify 0 one_leased = Some (True, one_leased)"
  by (simp add: verify_def one_leased_fields first_conn_def healthy_env_def)












lemma run_deferred_0 [simp]: "run_deferred 0 s = s"
  by (simp add: run_deferred_def)

lemma run_deferred_pending [simp]:
  "run_deferred (Suc 0) (s\<lparr>numPending := Suc (numPending s)\<rparr>) = s"
  by (simp add: run_deferred_def)













lemma cache_simps:
  "statements (conns (cache_put c q st s) c) q = Some st"
  "statements (conns (cache_delete c q s) c) q = None"
  "pool (conns (cache_put c q st s) x) = pool (conns s x)"
  "pool (conns (cache_delete c q s) x) = pool (conns s x)"
  by (simp_all add: cache_put_def cache_delete_def)

lemma Prepare_hit:
  assumes "statements (conns s c) q = Some st"
  shows "Prepare c q t reply s = Some ((Some st, None), s)"
  using assms by (simp add: Prepare_def)

lemma Prepare_miss_ok:
  assumes "statements (conns s c) q = None" "pool (conns s c) \<noteq> None"
  shows "Prepare c q Completes (h, None) s =
           Some ((Some \<lparr>raw = h, conn = c, sql = q\<rparr>, None),
                 cache_put c q \<lparr>raw = h, conn = c, sql = q\<rparr> s)"
  using assms
  by (auto simp add: Prepare_def withTimeout_def destroyOnError_def captured_def Let_def)

lemma Prepare_success_cached:
  assumes "Prepare c q t reply s = Some ((r, None), s1)"
  shows "\<exists>st. r = Some st \<and> statements (conns s1 c) q = Some st"
proof (cases "statements (conns s c) q")
  case (Some st)
  with assms have "r = Some st" "s1 = s" by (simp_all add: Prepare_def)
  with Some show ?thesis by simp
next
  case None
  show ?thesis
  proof (cases "pool (conns s c)")
    case np: None
    with None assms show ?thesis by (simp add: Prepare_def withTimeout_def Let_def)
  next
    case (Some p)
    show ?thesis
    proof (cases t)
      case DeadlineFirst
      with None Some assms show ?thesis
        by (simp add: Prepare_def withTimeout_def Let_def)
    next
      case Completes
      show ?thesis
      proof (cases "snd reply")
        case rn: None
        with None Some Completes assms show ?thesis
          by (auto simp add: Prepare_def withTimeout_def destroyOnError_def captured_def
              Let_def cache_simps)
      next
        case (Some e)
        with None \<open>pool (conns s c) = Some p\<close> Completes assms show ?thesis
          by (auto simp add: Prepare_def withTimeout_def destroyOnError_def captured_def
              Let_def split: if_splits option.splits)
      qed
    qed
  qed
qed

lemma Prepare_one_leased:
  "Prepare 0 ''SELECT 1'' Completes (7, None) one_leased = Some ((Some sel, None), one_prepared)"
proof -
  have f: "statements (conns one_leased 0) ''SELECT 1'' = None" "pool (conns one_leased 0) \<noteq> None"
    by (simp_all add: one_leased_fields first_conn_def)
  show ?thesis
    using Prepare_miss_ok[OF f, of 7] by (simp add: sel_def one_prepared_def)
qed

lemma one_prepared_fields:
  "pool (conns one_prepared 0) \<noteq> None" "numPending one_prepared = 0"
  "next_conn one_prepared = 1"
  by (simp_all add: one_prepared_def cache_put_def one_leased_fields first_conn_def)

section \<open>The claims\<close>

subsection \<open>C1: the attempts of Get\<close>




subsection \<open>C2: what destroyOnError destroys\<close>

text \<open>
  Claim C2. Let the work return \<open>err\<close> and leave the state \<open>s1\<close>. When \<open>err\<close> is nil
  or \<^verbatim>\<open>io.EOF\<close>, \<^verbatim>\<open>destroyOnError\<close> leaves \<open>s1\<close> as it is. When \<open>err\<close> is an error
  that is neither a \<^verbatim>\<open>*mysql.Error\<close> nor \<^verbatim>\<open>io.EOF\<close>, or a \<^verbatim>\<open>*mysql.Error\<close> whose code
  is at least 2000 or is one of the codes listed in the source, \<^verbatim>\<open>Destroy\<close> runs on
  the connection in \<open>s1\<close>; for every other code of a \<^verbatim>\<open>*mysql.Error\<close> the state stays
  \<open>s1\<close>. Code 1021 destroys, code 1022 does not, code 2006 destroys. Whenever the call
  returns, the error it returns is \<open>err\<close> itself.
\<close>

theorem destroyOnError_classification:
  assumes "f s = Some (err, s1)"
  shows "(err = None \<or> err = Some (Drv EOF) \<longrightarrow> destroyOnError c f s = Some (err, s1))
    \<and> (\<forall>e. err = Some e \<and> e \<noteq> Drv EOF \<and> (\<forall>code. e \<noteq> Drv (MysqlError code)) \<longrightarrow>
           destroyOnError c f s = map_option (Pair err) (Destroy c s1))
    \<and> (\<forall>code. err = Some (Drv (MysqlError code))
             \<and> (2000 \<le> code \<or> code \<in> set server_fatal_codes) \<longrightarrow>
           destroyOnError c f s = map_option (Pair err) (Destroy c s1))
    \<and> (\<forall>code. err = Some (Drv (MysqlError code))
             \<and> code < 2000 \<and> code \<notin> set server_fatal_codes \<longrightarrow>
           destroyOnError c f s = Some (err, s1))
    \<and> (err = Some (Drv (MysqlError 1021)) \<longrightarrow>
           destroyOnError c f s = map_option (Pair err) (Destroy c s1))
    \<and> (err = Some (Drv (MysqlError 1022)) \<longrightarrow> destroyOnError c f s = Some (err, s1))
    \<and> (err = Some (Drv (MysqlError 2006)) \<longrightarrow>
           destroyOnError c f s = map_option (Pair err) (Destroy c s1))
    \<and> (\<forall>r s'. destroyOnError c f s = Some (r, s') \<longrightarrow> r = err)"
proof -
  have other: "\<And>e. e \<noteq> Drv EOF \<Longrightarrow> \<forall>code. e \<noteq> Drv (MysqlError code) \<Longrightarrow> fatal e"
  proof -
    fix e assume "e \<noteq> Drv EOF" "\<forall>code. e \<noteq> Drv (MysqlError code)"
    then show "fatal e"
      by (cases e rule: fatal.cases) simp_all
  qed
  have c1021: "fatal (Drv (MysqlError 1021))" by (simp add: server_fatal_codes_def)
  have c1022: "\<not> fatal (Drv (MysqlError 1022))" by (simp add: server_fatal_codes_def)
  have c2006: "fatal (Drv (MysqlError 2006))" by simp
  have fm: "\<And>code. fatal (Drv (MysqlError code)) \<longleftrightarrow>
              code \<in> set server_fatal_codes \<or> 2000 \<le> code"
    by simp
  show ?thesis
    using assms other c1021 c1022 c2006
    by (auto simp add: destroyOnError_def fm simp del: fatal.simps(1) split: option.splits)
qed

theorem destroyOnError_classification_witness:
  "destroyOnError 0 (\<lambda>s. Some (Some (Drv (MysqlError 1021)), s)) one_leased
     = Some (Some (Drv (MysqlError 1021)), detached 0 one_leased)
   \<and> destroyOnError 0 (\<lambda>s. Some (Some (Drv (MysqlError 2006)), s)) one_leased
     = Some (Some (Drv (MysqlError 2006)), detached 0 one_leased)
   \<and> destroyOnError 0 (\<lambda>s. Some (Some (Drv (OtherError ''oops'')), s)) one_leased
     = Some (Some (Drv (OtherError ''oops'')), detached 0 one_leased)
   \<and> destroyOnError 0 (\<lambda>s. Some (Some (Drv (MysqlError 1022)), s)) one_leased
     = Some (Some (Drv (MysqlError 1022)), one_leased)
   \<and> destroyOnError 0 (\<lambda>s. Some (Some (Drv EOF), s)) one_leased
     = Some (Some (Drv EOF), one_leased)
   \<and> destroyOnError 0 (\<lambda>s. Some (None, s)) one_leased = Some (None, one_leased)
   \<and> pool (conns (detached 0 one_leased) 0) = None
   \<and> pool (conns one_leased 0) = Some ThePool"
  using
    destroyOnError_classification[of "\<lambda>s. Some (Some (Drv (MysqlError 1021)), s)" one_leased
      "Some (Drv (MysqlError 1021))" one_leased 0]
    destroyOnError_classification[of "\<lambda>s. Some (Some (Drv (MysqlError 2006)), s)" one_leased
      "Some (Drv (MysqlError 2006))" one_leased 0]
    destroyOnError_classification[of "\<lambda>s. Some (Some (Drv (OtherError ''oops'')), s)" one_leased
      "Some (Drv (OtherError ''oops''))" one_leased 0]
    destroyOnError_classification[of "\<lambda>s. Some (Some (Drv (MysqlError 1022)), s)" one_leased
      "Some (Drv (MysqlError 1022))" one_leased 0]
    destroyOnError_classification[of "\<lambda>s. Some (Some (Drv EOF), s)" one_leased
      "Some (Drv EOF)" one_leased 0]
    destroyOnError_classification[of "\<lambda>s. Some (None, s)" one_leased None one_leased 0]
  by (simp add: Destroy_one_leased detached_simps one_leased_fields first_conn_def)

subsection \<open>C3: the timeout wrapper\<close>

text \<open>
  Claim C3 says that after a deadline the connection is destroyed, that is, closed and
  removed from the pool's state. The wrapper calls the driver's \<^verbatim>\<open>Close\<close>, not
  \<^verbatim>\<open>Destroy\<close>: on the pool that has leased its first connection, the call returns
  \<^verbatim>\<open>ErrRequestTimeout\<close> and leaves the connection closed, but still in the open set,
  with its back-reference set, and \<^verbatim>\<open>Size\<close> still reports one connection; the state
  differs from the one \<^verbatim>\<open>Destroy\<close> leaves.
\<close>

theorem withTimeout_deadline_keeps_pool_state:
  "(case withTimeout 0 DeadlineFirst (\<lambda>s. Some (None, s)) one_leased of
      None \<Rightarrow> False
    | Some (err, s') \<Rightarrow>
        err = Some ErrRequestTimeout \<and> \<not> connected (conns s' 0)
        \<and> 0 \<in> openConnections s' \<and> pool (conns s' 0) = Some ThePool
        \<and> Size s' = (1, 0) \<and> Destroy 0 one_leased \<noteq> Some s')"
proof -
  have "0 \<in> openConnections (Close 0 one_leased)"
    by (simp add: Close_def one_leased_fields)
  moreover have "0 \<notin> openConnections (detached 0 one_leased)"
    by (simp add: detached_simps)
  ultimately have "detached 0 one_leased \<noteq> Close 0 one_leased" by metis
  then show ?thesis
    by (simp add: withTimeout_def Close_def one_leased_fields first_conn_def Size_def
        Destroy_one_leased)
qed

text \<open>
  Claim C3, amended. On a connection whose back-reference is set: when the deadline
  fires first, the caller receives \<^verbatim>\<open>ErrRequestTimeout\<close> and the wrapper closes the
  underlying connection and does nothing else: the open set, the idle channel, the
  pending counter, the back-reference, the statement cache and every other connection
  are as before. When the work completes first, the result and the state are those of
  the work.
\<close>

theorem withTimeout_outcomes:
  assumes "pool (conns s c) \<noteq> None"
  shows "withTimeout c DeadlineFirst f s = Some (Some ErrRequestTimeout, Close c s)
    \<and> \<not> connected (conns (Close c s) c)
    \<and> openConnections (Close c s) = openConnections s
    \<and> idleConnections (Close c s) = idleConnections s
    \<and> numPending (Close c s) = numPending s
    \<and> pool (conns (Close c s) c) = pool (conns s c)
    \<and> statements (conns (Close c s) c) = statements (conns s c)
    \<and> (\<forall>x. x \<noteq> c \<longrightarrow> conns (Close c s) x = conns s x)
    \<and> withTimeout c Completes f s = f s"
  using assms by (auto simp add: withTimeout_def Close_def)

theorem withTimeout_outcomes_witness:
  "withTimeout 0 DeadlineFirst (\<lambda>s. Some (None, s)) one_leased
     = Some (Some ErrRequestTimeout, Close 0 one_leased)
   \<and> openConnections (Close 0 one_leased) = {0}
   \<and> pool (conns (Close 0 one_leased) 0) = Some ThePool
   \<and> \<not> connected (conns (Close 0 one_leased) 0)
   \<and> withTimeout 0 Completes (\<lambda>s. Some (Some (Drv EOF), s)) one_leased
     = Some (Some (Drv EOF), one_leased)"
  using withTimeout_outcomes[of one_leased 0 "\<lambda>s. Some (None, s)"]
    withTimeout_outcomes[of one_leased 0 "\<lambda>s. Some (Some (Drv EOF), s)"]
  by (simp add: one_leased_fields first_conn_def)

subsection \<open>C4: the pool invariants\<close>




subsection \<open>C5: Release\<close>

text \<open>
  Claim C5. With a nil back-reference \<^verbatim>\<open>Release\<close> returns
  \<^verbatim>\<open>ErrConnectionNotInPool\<close> and the state is unchanged. With the back-reference set:
  when connections are kept alive and \<^verbatim>\<open>verify\<close> passes (which leaves the state as
  it is), the connection is appended to the idle channel if the channel has room, and
  \<^verbatim>\<open>Destroy\<close> runs instead if it is full; when \<^verbatim>\<open>verify\<close> fails, it has destroyed
  the connection and \<^verbatim>\<open>Destroy\<close> runs once more, which for an allocated connection
  changes nothing; when connections are not kept alive \<^verbatim>\<open>Destroy\<close> runs at once.
  In all these cases every return of the call carries the nil error. On a pool that
  satisfies its invariant, the release of a connection that the caller holds returns.
\<close>

theorem Release_outcomes:
  "(pool (conns s c) = None \<longrightarrow> Release c s = Some (Some ErrConnectionNotInPool, s))
   \<and> (pool (conns s c) \<noteq> None \<and> KeepConnectionsAlive (config s)
        \<and> verify c s = Some (True, s1) \<longrightarrow>
        s1 = s
        \<and> (length (idleConnections s) < idleCap s \<longrightarrow>
              Release c s = Some (None, s\<lparr>idleConnections := idleConnections s @ [c]\<rparr>))
        \<and> (\<not> length (idleConnections s) < idleCap s \<longrightarrow>
              Release c s = map_option (Pair None) (Destroy c s)))
   \<and> (pool (conns s c) \<noteq> None \<and> KeepConnectionsAlive (config s)
        \<and> verify c s = Some (False, s1) \<longrightarrow>
        Destroy c s = Some s1
        \<and> Release c s = map_option (Pair None) (Destroy c s1)
        \<and> (c < next_conn s \<longrightarrow> Release c s = Some (None, s1)))
   \<and> (pool (conns s c) \<noteq> None \<and> \<not> KeepConnectionsAlive (config s) \<longrightarrow>
        Release c s = map_option (Pair None) (Destroy c s))
   \<and> (pool (conns s c) \<noteq> None \<longrightarrow> (\<forall>r s'. Release c s = Some (r, s') \<longrightarrow> r = None))
   \<and> (pool_inv s \<and> leased c s \<longrightarrow> (\<exists>s'. Release c s = Some (None, s')))"
proof (intro conjI impI allI)
  assume "pool (conns s c) = None"
  then show "Release c s = Some (Some ErrConnectionNotInPool, s)"
    by (simp add: Release_def)
next
  assume a: "pool (conns s c) \<noteq> None \<and> KeepConnectionsAlive (config s)
        \<and> verify c s = Some (True, s1)"
  then show e: "s1 = s" using verify_True_same by blast
  {
    assume "length (idleConnections s) < idleCap s"
    with a e show "Release c s = Some (None, s\<lparr>idleConnections := idleConnections s @ [c]\<rparr>)"
      by (auto simp add: Release_def)
  }
  {
    assume "\<not> length (idleConnections s) < idleCap s"
    with a e show "Release c s = map_option (Pair None) (Destroy c s)"
      by (auto simp add: Release_def)
  }
next
  assume a: "pool (conns s c) \<noteq> None \<and> KeepConnectionsAlive (config s)
        \<and> verify c s = Some (False, s1)"
  then show d: "Destroy c s = Some s1" using verify_False_Destroy by blast
  from a show r: "Release c s = map_option (Pair None) (Destroy c s1)"
    by (auto simp add: Release_def)
  {
    assume c: "c < next_conn s"
    note l = Destroy_leaves[OF c d]
    from l(1,2) have "Destroy c s1 = Some s1" by (simp add: Destroy_unpooled)
    with r show "Release c s = Some (None, s1)" by simp
  }
next
  assume "pool (conns s c) \<noteq> None \<and> \<not> KeepConnectionsAlive (config s)"
  then show "Release c s = map_option (Pair None) (Destroy c s)"
    by (auto simp add: Release_def)
next
  fix r s' assume "pool (conns s c) \<noteq> None" "Release c s = Some (r, s')"
  then show "r = None"
    by (auto simp add: Release_def split: if_splits option.splits)
next
  assume "pool_inv s \<and> leased c s"
  then have "pool_inv s" "leased c s" by simp_all
  from Release_inv[OF this] show "\<exists>s'. Release c s = Some (None, s')" by blast
qed

theorem Release_outcomes_witness:
  "Release 0 one_leased = Some (None, one_leased\<lparr>idleConnections := [0]\<rparr>)
   \<and> Release 0 (detached 0 one_leased)
       = Some (Some ErrConnectionNotInPool, detached 0 one_leased)
   \<and> Release 0 (one_leased\<lparr>config := no_keep_config\<rparr>)
       = Some (None, detached 0 (one_leased\<lparr>config := no_keep_config\<rparr>))
   \<and> Release 0 (one_leased\<lparr>env := deaf_env\<rparr>)
       = Some (None, detached 0 (one_leased\<lparr>env := deaf_env\<rparr>))
   \<and> Release 0 (one_leased\<lparr>idleCap := 0\<rparr>)
       = Some (None, detached 0 (one_leased\<lparr>idleCap := 0\<rparr>))"
proof -
  let ?nk = "one_leased\<lparr>config := no_keep_config\<rparr>"
  let ?deaf = "one_leased\<lparr>env := deaf_env\<rparr>"
  let ?full = "one_leased\<lparr>idleCap := 0\<rparr>"
  have k: "KeepConnectionsAlive (config one_leased)" "KeepConnectionsAlive (config ?deaf)"
    "KeepConnectionsAlive (config ?full)" "\<not> KeepConnectionsAlive (config ?nk)"
    by (simp_all add: one_leased_fields test_config_def no_keep_config_def)
  have p: "pool (conns one_leased 0) \<noteq> None" "pool (conns ?deaf 0) \<noteq> None"
    "pool (conns ?full 0) \<noteq> None" "pool (conns ?nk 0) \<noteq> None"
    "pool (conns (detached 0 one_leased) 0) = None"
    by (simp_all add: one_leased_fields first_conn_def detached_simps)
  have d: "Destroy 0 ?nk = Some (detached 0 ?nk)" "Destroy 0 ?deaf = Some (detached 0 ?deaf)"
    "Destroy 0 ?full = Some (detached 0 ?full)"
    by (rule Destroy_no_pending, simp_all add: one_leased_fields first_conn_def)+
  have e: "ping (env ?deaf) 0 \<noteq> None" "ping (env ?full) 0 = None" "now (env ?full) = 0"
    by (simp_all add: one_leased_fields deaf_env_def healthy_env_def)
  have v: "verify 0 ?deaf = Some (False, detached 0 ?deaf)"
    "verify 0 ?full = Some (True, ?full)"
    using e by (simp_all add: verify_def d one_leased_fields first_conn_def)
  have r1: "Release 0 one_leased = Some (None, one_leased\<lparr>idleConnections := [0]\<rparr>)"
    using Release_outcomes[of one_leased 0 one_leased, THEN conjunct2, THEN conjunct1]
      p(1) k(1) verify_one_leased
    by (simp add: one_leased_fields)
  have r2: "Release 0 (detached 0 one_leased)
       = Some (Some ErrConnectionNotInPool, detached 0 one_leased)"
    using Release_outcomes[of "detached 0 one_leased" 0 one_leased, THEN conjunct1] p(5)
    by simp
  have r3: "Release 0 ?nk = Some (None, detached 0 ?nk)"
    using Release_outcomes[of ?nk 0 ?nk, THEN conjunct2, THEN conjunct2, THEN conjunct2,
        THEN conjunct1] p(4) k(4) d(1)
    by simp
  have h4: "pool (conns ?deaf 0) \<noteq> None \<and> KeepConnectionsAlive (config ?deaf)
        \<and> verify 0 ?deaf = Some (False, detached 0 ?deaf)"
    using p(2) k(2) v(1) by (intro conjI)
  have n4: "0 < next_conn ?deaf" by (simp add: one_leased_fields)
  have r4: "Release 0 ?deaf = Some (None, detached 0 ?deaf)"
    by (rule Release_outcomes[of ?deaf 0 "detached 0 ?deaf", THEN conjunct2, THEN conjunct2,
        THEN conjunct1, rule_format, OF h4, THEN conjunct2, THEN conjunct2, rule_format, OF n4])
  have r5: "Release 0 ?full = Some (None, detached 0 ?full)"
    using Release_outcomes[of ?full 0 ?full, THEN conjunct2, THEN conjunct1]
      p(3) k(3) v(2) d(3)
    by (simp add: one_leased_fields)
  from r1 r2 r3 r4 r5 show ?thesis by (intro conjI)
qed

subsection \<open>C6: Destroy and its backfill\<close>

text \<open>
  Claim C6. Let \<open>c\<close> be an allocated connection whose back-reference is set. Whenever
  \<^verbatim>\<open>Destroy\<close> returns, \<open>c\<close> is closed, out of the open set, its statement cache is
  empty, its back-reference is nil and the pending counter is unchanged. With no pending
  waiter nothing else changes: no connection is created. With a pending waiter and a
  connect that succeeds, exactly one new connection, the next one allocated, is put
  into the open set and at the end of the idle channel, provided the channel has room
  (it has whenever the pool invariant holds and \<open>c\<close> is outside the channel, lemma
  \<open>leased_room\<close>). With a pending waiter and a connect that fails, \<^verbatim>\<open>Destroy\<close> still
  returns, the error is dropped, and nothing is added to the open set or the channel.
\<close>

theorem Destroy_pooled_effects:
  assumes pooled: "pool (conns s c) \<noteq> None" and alloc: "c < next_conn s"
  shows "(\<forall>s'. Destroy c s = Some s' \<longrightarrow>
            \<not> connected (conns s' c) \<and> pool (conns s' c) = None
            \<and> statements (conns s' c) = Map.empty \<and> c \<notin> openConnections s'
            \<and> numPending s' = numPending s)
    \<and> (numPending s = 0 \<longrightarrow>
          (\<exists>s'. Destroy c s = Some s' \<and> openConnections s' = openConnections s - {c}
                \<and> idleConnections s' = idleConnections s \<and> next_conn s' = next_conn s))
    \<and> (0 < numPending s \<and> connect_ok (next_conn s) s
          \<and> length (idleConnections s) < idleCap s \<longrightarrow>
          (\<exists>s'. Destroy c s = Some s'
                \<and> openConnections s' = insert (next_conn s) (openConnections s - {c})
                \<and> idleConnections s' = idleConnections s @ [next_conn s]
                \<and> next_conn s' = Suc (next_conn s)
                \<and> connected (conns s' (next_conn s))
                \<and> pool (conns s' (next_conn s)) = Some ThePool))
    \<and> (0 < numPending s \<and> \<not> connect_ok (next_conn s) s \<longrightarrow>
          (\<exists>s'. Destroy c s = Some s' \<and> openConnections s' = openConnections s - {c}
                \<and> idleConnections s' = idleConnections s
                \<and> next_conn s' = Suc (next_conn s)))"
proof (intro conjI impI allI)
  fix s' assume d: "Destroy c s = Some s'"
  note l = Destroy_leaves[OF alloc d]
  show "\<not> connected (conns s' c)" by (rule l(2))
  show "pool (conns s' c) = None" by (rule l(1))
  show "statements (conns s' c) = Map.empty" by (rule l(5)[OF pooled])
  show "c \<notin> openConnections s'" by (rule l(6)[OF pooled])
  show "numPending s' = numPending s" by (rule l(4))
next
  assume "numPending s = 0"
  with pooled have "Destroy c s = Some (detached c s)" by (simp add: Destroy_no_pending)
  then show "\<exists>s'. Destroy c s = Some s' \<and> openConnections s' = openConnections s - {c}
                \<and> idleConnections s' = idleConnections s \<and> next_conn s' = next_conn s"
    by (simp add: detached_simps)
next
  assume a: "0 < numPending s \<and> connect_ok (next_conn s) s
          \<and> length (idleConnections s) < idleCap s"
  then have "0 < numPending s" "connect_ok (next_conn s) s"
    "length (idleConnections s) < idleCap s" by simp_all
  from Destroy_backfill_ok[OF pooled this]
  show "\<exists>s'. Destroy c s = Some s'
                \<and> openConnections s' = insert (next_conn s) (openConnections s - {c})
                \<and> idleConnections s' = idleConnections s @ [next_conn s]
                \<and> next_conn s' = Suc (next_conn s)
                \<and> connected (conns s' (next_conn s))
                \<and> pool (conns s' (next_conn s)) = Some ThePool"
    by simp
next
  assume a: "0 < numPending s \<and> \<not> connect_ok (next_conn s) s"
  then have "0 < numPending s" "\<not> connect_ok (next_conn s) s" by simp_all
  from Destroy_backfill_fail[OF pooled this]
  show "\<exists>s'. Destroy c s = Some s' \<and> openConnections s' = openConnections s - {c}
                \<and> idleConnections s' = idleConnections s
                \<and> next_conn s' = Suc (next_conn s)"
    by blast
qed

theorem Destroy_pooled_effects_witness:
  "(\<exists>s'. Destroy 0 one_leased = Some s' \<and> openConnections s' = {}
         \<and> idleConnections s' = [] \<and> next_conn s' = 1 \<and> pool (conns s' 0) = None
         \<and> \<not> connected (conns s' 0))
   \<and> (\<exists>s'. Destroy 0 one_waiting = Some s' \<and> openConnections s' = {1}
         \<and> idleConnections s' = [1] \<and> next_conn s' = 2 \<and> pool (conns s' 0) = None
         \<and> pool (conns s' 1) = Some ThePool)
   \<and> (\<exists>s'. Destroy 0 (one_waiting\<lparr>env := refusing_env\<rparr>) = Some s'
         \<and> openConnections s' = {} \<and> idleConnections s' = [] \<and> pool (conns s' 0) = None)"
proof -
  let ?r = "one_waiting\<lparr>env := refusing_env\<rparr>"
  have c: "connect_ok (next_conn one_waiting) one_waiting"
    by (rule connect_ok_test) (simp_all add: one_waiting_fields)
  have n: "\<not> connect_ok (next_conn ?r) ?r"
    by (simp add: connect_ok_def refusing_env_def)
  have p: "pool (conns one_leased 0) \<noteq> None" "pool (conns one_waiting 0) \<noteq> None"
    "pool (conns ?r 0) \<noteq> None"
    by (simp_all add: one_leased_fields one_waiting_fields first_conn_def)
  have a: "0 < next_conn one_leased" "0 < next_conn one_waiting" "0 < next_conn ?r"
    by (simp_all add: one_leased_fields one_waiting_fields)
  note T1 = Destroy_pooled_effects[OF p(1) a(1)]
  note T2 = Destroy_pooled_effects[OF p(2) a(2)]
  note T3 = Destroy_pooled_effects[OF p(3) a(3)]
  have "numPending one_leased = 0" by (simp add: one_leased_fields)
  from T1[THEN conjunct2, THEN conjunct1, rule_format, OF this]
  obtain s1 where s1: "Destroy 0 one_leased = Some s1"
    "openConnections s1 = openConnections one_leased - {0}"
    "idleConnections s1 = idleConnections one_leased" "next_conn s1 = next_conn one_leased"
    by (elim exE conjE)
  from T1[THEN conjunct1, rule_format, OF s1(1)]
  have g1: "pool (conns s1 0) = None" "\<not> connected (conns s1 0)" by simp_all
  have "0 < numPending one_waiting \<and> connect_ok (next_conn one_waiting) one_waiting
        \<and> length (idleConnections one_waiting) < idleCap one_waiting"
    using c by (simp add: one_waiting_fields)
  from T2[THEN conjunct2, THEN conjunct2, THEN conjunct1, rule_format, OF this]
  obtain s2 where s2: "Destroy 0 one_waiting = Some s2"
    "openConnections s2 = insert (next_conn one_waiting) (openConnections one_waiting - {0})"
    "idleConnections s2 = idleConnections one_waiting @ [next_conn one_waiting]"
    "next_conn s2 = Suc (next_conn one_waiting)"
    "pool (conns s2 (next_conn one_waiting)) = Some ThePool"
    by (elim exE conjE)
  from T2[THEN conjunct1, rule_format, OF s2(1)]
  have g2: "pool (conns s2 0) = None" by simp
  have "0 < numPending ?r \<and> \<not> connect_ok (next_conn ?r) ?r"
    using n by (simp add: one_waiting_fields)
  from T3[THEN conjunct2, THEN conjunct2, THEN conjunct2, rule_format, OF this]
  obtain s3 where s3: "Destroy 0 ?r = Some s3"
    "openConnections s3 = openConnections ?r - {0}"
    "idleConnections s3 = idleConnections ?r"
    by (elim exE conjE)
  from T3[THEN conjunct1, rule_format, OF s3(1)]
  have g3: "pool (conns s3 0) = None" by simp
  have e1: "\<exists>s'. Destroy 0 one_leased = Some s' \<and> openConnections s' = {}
         \<and> idleConnections s' = [] \<and> next_conn s' = 1 \<and> pool (conns s' 0) = None
         \<and> \<not> connected (conns s' 0)"
    using s1 g1 by (intro exI[of _ s1]) (simp add: one_leased_fields)
  have e2: "\<exists>s'. Destroy 0 one_waiting = Some s' \<and> openConnections s' = {1}
         \<and> idleConnections s' = [1] \<and> next_conn s' = 2 \<and> pool (conns s' 0) = None
         \<and> pool (conns s' 1) = Some ThePool"
    using s2 g2 by (intro exI[of _ s2]) (simp add: one_waiting_fields)
  have e3: "\<exists>s'. Destroy 0 ?r = Some s'
         \<and> openConnections s' = {} \<and> idleConnections s' = [] \<and> pool (conns s' 0) = None"
    using s3 g3 by (intro exI[of _ s3]) (simp add: one_waiting_fields)
  from e1 e2 e3 show ?thesis by (intro conjI)
qed

subsection \<open>C7: verify\<close>




subsection \<open>C8: the statement cache\<close>

text \<open>
  Claim C8 says that an unsuccessful \<^verbatim>\<open>Stmt.Delete\<close> leaves the entry of the cache in
  place. \<^verbatim>\<open>Delete\<close> runs under \<^verbatim>\<open>destroyOnError\<close>: when the driver's error is one
  that destroys the connection, \<^verbatim>\<open>Destroy\<close> replaces the cache by an empty one. On the
  first connection of the test pool, after \<^verbatim>\<open>Prepare("SELECT 1")\<close> has cached its
  statement, a \<^verbatim>\<open>Delete\<close> that fails with code 2006 returns that error and the cache
  has no entry for the statement any more.
\<close>

theorem Delete_fatal_clears_cache:
  "Prepare 0 ''SELECT 1'' Completes (7, None) one_leased = Some ((Some sel, None), one_prepared)
   \<and> statements (conns one_prepared 0) ''SELECT 1'' = Some sel
   \<and> Delete sel (Some (MysqlError 2006)) one_prepared
       = Some (Some (Drv (MysqlError 2006)), detached 0 one_prepared)
   \<and> statements (conns (detached 0 one_prepared) 0) ''SELECT 1'' = None"
proof -
  have f: "statements (conns one_leased 0) ''SELECT 1'' = None" "pool (conns one_leased 0) \<noteq> None"
    by (simp_all add: one_leased_fields first_conn_def)
  have p: "Prepare 0 ''SELECT 1'' Completes (7, None) one_leased
           = Some ((Some sel, None), one_prepared)"
    using Prepare_miss_ok[OF f, of 7] by (simp add: sel_def one_prepared_def)
  have "pool (conns one_prepared 0) \<noteq> None" "numPending one_prepared = 0"
    by (simp_all add: one_prepared_def cache_put_def one_leased_fields first_conn_def)
  then have d: "Destroy 0 one_prepared = Some (detached 0 one_prepared)"
    by (rule Destroy_no_pending)
  have "Delete sel (Some (MysqlError 2006)) one_prepared
       = Some (Some (Drv (MysqlError 2006)), detached 0 one_prepared)"
    by (simp add: Delete_def destroyOnError_def sel_def d)
  moreover have "statements (conns one_prepared 0) ''SELECT 1'' = Some sel"
    by (simp add: one_prepared_def cache_simps)
  moreover have "statements (conns (detached 0 one_prepared) 0) ''SELECT 1'' = None"
    by (simp add: detached_simps)
  ultimately show ?thesis using p by (intro conjI)
qed

text \<open>
  Claim C8, amended. Whenever \<^verbatim>\<open>Prepare\<close> returns with a nil error, it returns a
  statement, that statement is the entry of the cache for the SQL text, and any further
  \<^verbatim>\<open>Prepare\<close> of the same text on the same connection returns it with a nil error and
  an unchanged state, whatever the timing and whatever the driver would answer: the
  driver is not asked. A \<^verbatim>\<open>Delete\<close> that succeeds removes the entry and changes
  nothing else, and a following \<^verbatim>\<open>Prepare\<close> of the text on the pooled connection asks
  the driver and caches the new statement. A \<^verbatim>\<open>Delete\<close> that fails with an error that
  \<^verbatim>\<open>destroyOnError\<close> does not classify as fatal changes nothing. A \<^verbatim>\<open>Delete\<close> that
  fails with a fatal error runs \<^verbatim>\<open>Destroy\<close>, which on a pooled connection leaves the
  whole cache empty.
\<close>

theorem statement_cache:
  "(Prepare c q t reply s = Some ((r, None), s1) \<longrightarrow>
      (\<exists>st. r = Some st \<and> statements (conns s1 c) q = Some st
         \<and> (\<forall>t' reply'. Prepare c q t' reply' s1 = Some ((Some st, None), s1))))
   \<and> Delete st None s = Some (None, cache_delete (conn st) (sql st) s)
   \<and> statements (conns (cache_delete (conn st) (sql st) s) (conn st)) (sql st) = None
   \<and> (pool (conns s (conn st)) \<noteq> None \<longrightarrow>
        Prepare (conn st) (sql st) Completes (h, None) (cache_delete (conn st) (sql st) s)
          = Some ((Some \<lparr>raw = h, conn = conn st, sql = sql st\<rparr>, None),
                  cache_put (conn st) (sql st) \<lparr>raw = h, conn = conn st, sql = sql st\<rparr>
                    (cache_delete (conn st) (sql st) s)))
   \<and> (\<not> fatal (Drv e) \<longrightarrow> Delete st (Some e) s = Some (Some (Drv e), s))
   \<and> (fatal (Drv e) \<longrightarrow>
        Delete st (Some e) s = map_option (Pair (Some (Drv e))) (Destroy (conn st) s)
        \<and> (pool (conns s (conn st)) \<noteq> None \<and> conn st < next_conn s \<longrightarrow>
             (\<forall>s'. Destroy (conn st) s = Some s' \<longrightarrow> statements (conns s' (conn st)) = Map.empty)))"
proof (intro conjI impI allI)
  assume a: "Prepare c q t reply s = Some ((r, None), s1)"
  from Prepare_success_cached[OF a] obtain st where
    st: "r = Some st" "statements (conns s1 c) q = Some st" by blast
  then show "\<exists>st. r = Some st \<and> statements (conns s1 c) q = Some st
         \<and> (\<forall>t' reply'. Prepare c q t' reply' s1 = Some ((Some st, None), s1))"
    by (simp add: Prepare_hit)
next
  show "Delete st None s = Some (None, cache_delete (conn st) (sql st) s)"
    by (simp add: Delete_def destroyOnError_def)
next
  show "statements (conns (cache_delete (conn st) (sql st) s) (conn st)) (sql st) = None"
    by (simp add: cache_simps)
next
  assume "pool (conns s (conn st)) \<noteq> None"
  then show "Prepare (conn st) (sql st) Completes (h, None) (cache_delete (conn st) (sql st) s)
          = Some ((Some \<lparr>raw = h, conn = conn st, sql = sql st\<rparr>, None),
                  cache_put (conn st) (sql st) \<lparr>raw = h, conn = conn st, sql = sql st\<rparr>
                    (cache_delete (conn st) (sql st) s))"
    by (intro Prepare_miss_ok) (simp_all add: cache_simps)
next
  assume "\<not> fatal (Drv e)"
  then show "Delete st (Some e) s = Some (Some (Drv e), s)"
    by (simp add: Delete_def destroyOnError_def)
next
  assume "fatal (Drv e)"
  then show "Delete st (Some e) s = map_option (Pair (Some (Drv e))) (Destroy (conn st) s)"
    by (simp add: Delete_def destroyOnError_def)
next
  fix s' assume "pool (conns s (conn st)) \<noteq> None \<and> conn st < next_conn s"
    and d: "Destroy (conn st) s = Some s'"
  then have "conn st < next_conn s" "pool (conns s (conn st)) \<noteq> None" by simp_all
  from Destroy_leaves(5)[OF this(1) d this(2)]
  show "statements (conns s' (conn st)) = Map.empty" .
qed

theorem statement_cache_witness:
  "Prepare 0 ''SELECT 1'' DeadlineFirst (9, Some EOF) one_prepared
     = Some ((Some sel, None), one_prepared)
   \<and> Delete sel None one_prepared = Some (None, cache_delete 0 ''SELECT 1'' one_prepared)
   \<and> Prepare 0 ''SELECT 1'' Completes (8, None) (cache_delete 0 ''SELECT 1'' one_prepared)
     = Some ((Some \<lparr>raw = 8, conn = 0, sql = ''SELECT 1''\<rparr>, None),
             cache_put 0 ''SELECT 1'' \<lparr>raw = 8, conn = 0, sql = ''SELECT 1''\<rparr>
               (cache_delete 0 ''SELECT 1'' one_prepared))
   \<and> Delete sel (Some (MysqlError 1022)) one_prepared
     = Some (Some (Drv (MysqlError 1022)), one_prepared)
   \<and> statements (conns one_prepared 0) ''SELECT 1'' = Some sel
   \<and> Delete sel (Some (MysqlError 2006)) one_prepared
     = Some (Some (Drv (MysqlError 2006)), detached 0 one_prepared)"
proof -
  note T = statement_cache[where c = 0 and q = "''SELECT 1''" and t = Completes
      and reply = "(7, None)" and s = one_leased and r = "Some sel" and ?s1.0 = one_prepared]
  from T[THEN conjunct1, rule_format, OF Prepare_one_leased]
  have w1: "Prepare 0 ''SELECT 1'' DeadlineFirst (9, Some EOF) one_prepared
     = Some ((Some sel, None), one_prepared)"
    and w5: "statements (conns one_prepared 0) ''SELECT 1'' = Some sel"
    by auto
  note U = statement_cache[where s = one_prepared and st = sel and h = 8, THEN conjunct2]
  have cs: "conn sel = 0" "sql sel = ''SELECT 1''" by (simp_all add: sel_def)
  have w2: "Delete sel None one_prepared = Some (None, cache_delete 0 ''SELECT 1'' one_prepared)"
    using U[THEN conjunct1] by (simp add: cs)
  have w3: "Prepare 0 ''SELECT 1'' Completes (8, None) (cache_delete 0 ''SELECT 1'' one_prepared)
     = Some ((Some \<lparr>raw = 8, conn = 0, sql = ''SELECT 1''\<rparr>, None),
             cache_put 0 ''SELECT 1'' \<lparr>raw = 8, conn = 0, sql = ''SELECT 1''\<rparr>
               (cache_delete 0 ''SELECT 1'' one_prepared))"
    using U[THEN conjunct2, THEN conjunct2, THEN conjunct1] one_prepared_fields(1)
    by (simp add: cs)
  have nf: "\<not> fatal (Drv (MysqlError 1022))" "fatal (Drv (MysqlError 2006))"
    by (simp_all add: server_fatal_codes_def)
  have w4: "Delete sel (Some (MysqlError 1022)) one_prepared
     = Some (Some (Drv (MysqlError 1022)), one_prepared)"
    by (rule statement_cache[where s = one_prepared and st = sel and e = "MysqlError 1022",
          THEN conjunct2, THEN conjunct2, THEN conjunct2, THEN conjunct2, THEN conjunct1,
          rule_format, OF nf(1)])
  have d: "Destroy 0 one_prepared = Some (detached 0 one_prepared)"
    by (rule Destroy_no_pending[OF one_prepared_fields(1,2)])
  have w6: "Delete sel (Some (MysqlError 2006)) one_prepared
     = Some (Some (Drv (MysqlError 2006)), detached 0 one_prepared)"
    using statement_cache[where s = one_prepared and st = sel and e = "MysqlError 2006",
          THEN conjunct2, THEN conjunct2, THEN conjunct2, THEN conjunct2, THEN conjunct2,
          rule_format, OF nf(2), THEN conjunct1] d
    by (simp add: cs)
  from w1 w2 w3 w4 w5 w6 show ?thesis by (intro conjI)
qed

subsection \<open>C9: the dropped value of the timeout wrapper\<close>



subsection \<open>C10: a second Destroy\<close>

text \<open>
  Claim C10. On a connection whose back-reference is nil, \<^verbatim>\<open>Destroy\<close> returns and
  leaves the open set, the pending counter, the idle channel, the allocation counter and
  every other connection unchanged. For an allocated connection, whenever a first
  \<^verbatim>\<open>Destroy\<close> returns, the back-reference is nil afterwards, a second \<^verbatim>\<open>Destroy\<close>
  returns and changes nothing at all, and the first call has allocated at most one
  connection: at most one replacement per destroyed connection.
\<close>

theorem Destroy_twice:
  "(pool (conns s c) = None \<longrightarrow>
      (\<exists>s'. Destroy c s = Some s' \<and> openConnections s' = openConnections s
            \<and> numPending s' = numPending s \<and> idleConnections s' = idleConnections s
            \<and> next_conn s' = next_conn s
            \<and> (\<forall>x. x \<noteq> c \<longrightarrow> conns s' x = conns s x)))
   \<and> (c < next_conn s \<longrightarrow>
        (\<forall>s1. Destroy c s = Some s1 \<longrightarrow>
           pool (conns s1 c) = None \<and> Destroy c s1 = Some s1
           \<and> next_conn s1 \<le> Suc (next_conn s)))"
proof (intro conjI impI allI)
  assume "pool (conns s c) = None"
  then show "\<exists>s'. Destroy c s = Some s' \<and> openConnections s' = openConnections s
            \<and> numPending s' = numPending s \<and> idleConnections s' = idleConnections s
            \<and> next_conn s' = next_conn s
            \<and> (\<forall>x. x \<noteq> c \<longrightarrow> conns s' x = conns s x)"
    by (simp add: Destroy_unpooled Close_def)
next
  fix s1 assume c: "c < next_conn s" and d: "Destroy c s = Some s1"
  note l = Destroy_leaves[OF c d]
  show "pool (conns s1 c) = None" by (rule l(1))
  show "next_conn s1 \<le> Suc (next_conn s)" by (rule l(3))
  show "Destroy c s1 = Some s1" using l(1,2) by (simp add: Destroy_unpooled)
qed

theorem Destroy_twice_witness:
  "Destroy 0 one_leased = Some (detached 0 one_leased)
   \<and> Destroy 0 (detached 0 one_leased) = Some (detached 0 one_leased)
   \<and> (\<exists>s1. Destroy 0 one_waiting = Some s1 \<and> Destroy 0 s1 = Some s1
           \<and> next_conn s1 = 2 \<and> openConnections s1 = {1} \<and> idleConnections s1 = [1])"
proof -
  have c: "connect_ok (next_conn one_waiting) one_waiting"
    by (rule connect_ok_test) (simp_all add: one_waiting_fields)
  have d: "Destroy 0 one_waiting = Some
     ((detached 0 one_waiting)\<lparr>conns := (conns (detached 0 one_waiting))(next_conn one_waiting :=
           \<lparr>connected = True, pool = Some ThePool, statements = Map.empty,
            expiryDate = now (env one_waiting) + connectionExpiry one_waiting\<rparr>),
       next_conn := Suc (next_conn one_waiting),
       openConnections := insert (next_conn one_waiting) (openConnections one_waiting - {0}),
       idleConnections := idleConnections one_waiting @ [next_conn one_waiting]\<rparr>)"
    by (rule Destroy_backfill_ok[OF _ _ c]) (simp_all add: one_waiting_fields first_conn_def)
  show ?thesis
    using Destroy_twice[of one_leased 0] Destroy_twice[of one_waiting 0] d
    by (simp add: Destroy_one_leased one_leased_fields one_waiting_fields first_conn_def)
qed

end
